theory Spec2Isabelle
  imports Complex_Main "HOL-Library.Option_ord" "HOL-Library.Multiset"
begin

section \<open>The relational schema\<close>

text \<open>
  The tables of the schema module, one record per table. A nullable column is an
  \<open>option\<close> (\<open>None\<close> is SQL NULL); a \<open>notNull\<close> column is a plain value. Timestamps
  are milliseconds since the epoch. Every field carries a prefix for its table (\<open>u_\<close>,
  \<open>p_\<close>, \<open>v_\<close>, \<open>c_\<close>), since the tables share column names. A \<open>ustring\<close> is the list
  of the characters of a string, each as its Unicode code point: the columns that are
  searched or bounded in length count characters. The other strings are only ever
  compared for equality.
\<close>

type_synonym timestamp = int

type_synonym codepoint = nat

type_synonym ustring = "codepoint list"

record User =
  u_id :: string
  u_email :: "string option"
  u_firstName :: "string option"
  u_lastName :: "string option"
  u_profileImageUrl :: "string option"
  u_role :: "string option"
  u_createdAt :: "timestamp option"
  u_updatedAt :: "timestamp option"

record Post =
  p_id :: string
  p_title :: ustring
  p_content :: ustring
  p_excerpt :: "ustring option"
  p_imageUrl :: "string option"
  p_category :: string
  p_tags :: "string list option"
  p_authorId :: string
  p_published :: "bool option"
  p_createdAt :: "timestamp option"
  p_updatedAt :: "timestamp option"

record Video =
  v_id :: string
  v_title :: ustring
  v_description :: "ustring option"
  v_videoUrl :: string
  v_thumbnailUrl :: "string option"
  v_category :: string
  v_tags :: "string list option"
  v_duration :: "string option"
  v_authorId :: string
  v_published :: "bool option"
  v_createdAt :: "timestamp option"
  v_updatedAt :: "timestamp option"

record Comment =
  c_id :: string
  c_content :: ustring
  c_authorId :: string
  c_postId :: "string option"
  c_videoId :: "string option"
  c_createdAt :: "timestamp option"
  c_updatedAt :: "timestamp option"

text \<open>
  The extended types: the base row spread into a flat object with one more key, the
  author. The \<open>!\<close> of \<open>row.users!\<close> is erased when the code is compiled, so the key
  holds whatever the left join produced, which is null for a row without a matching user.
\<close>

record PostWithAuthor = Post +
  p_author :: "User option"

record VideoWithAuthor = Video +
  v_author :: "User option"


text \<open>
  The insert types. \<open>UpsertUser\<close> is the table's inferred insert type: every column
  may be left out (outer \<open>None\<close>), and a nullable column may be given as null
  (\<open>Some None\<close>). The other insert types omit \<open>id\<close>, \<open>createdAt\<close> and
  \<open>updatedAt\<close>; the update operations take a \<open>Partial\<close> of them, in which every
  key may be left out.
\<close>

record UpsertUser =
  uu_id :: "string option"
  uu_email :: "string option option"
  uu_firstName :: "string option option"
  uu_lastName :: "string option option"
  uu_profileImageUrl :: "string option option"
  uu_role :: "string option option"
  uu_createdAt :: "timestamp option option"
  uu_updatedAt :: "timestamp option option"

record InsertPost =
  ip_title :: ustring
  ip_content :: ustring
  ip_excerpt :: "ustring option option"
  ip_imageUrl :: "string option option"
  ip_category :: string
  ip_tags :: "string list option option"
  ip_authorId :: string
  ip_published :: "bool option option"

record PartialInsertPost =
  pp_title :: "ustring option"
  pp_content :: "ustring option"
  pp_excerpt :: "ustring option option"
  pp_imageUrl :: "string option option"
  pp_category :: "string option"
  pp_tags :: "string list option option"
  pp_authorId :: "string option"
  pp_published :: "bool option option"

record InsertVideo =
  iv_title :: ustring
  iv_description :: "ustring option option"
  iv_videoUrl :: string
  iv_thumbnailUrl :: "string option option"
  iv_category :: string
  iv_tags :: "string list option option"
  iv_duration :: "string option option"
  iv_authorId :: string
  iv_published :: "bool option option"

record PartialInsertVideo =
  vp_title :: "ustring option"
  vp_description :: "ustring option option"
  vp_videoUrl :: "string option"
  vp_thumbnailUrl :: "string option option"
  vp_category :: "string option"
  vp_tags :: "string list option option"
  vp_duration :: "string option option"
  vp_authorId :: "string option"
  vp_published :: "bool option option"

record InsertComment =
  ic_content :: ustring
  ic_authorId :: string
  ic_postId :: "string option option"
  ic_videoId :: "string option option"

text \<open>
  The store: each table is the list of its rows. A write that would break a constraint
  of the schema (the length of a title, a primary key, the unique email, a foreign key) is
  rejected: the operation ends with the error and the store is as before. A table as it
  is given may hold any rows; a theorem that needs a constraint to hold of the rows at
  hand names it as a hypothesis.
\<close>

record db =
  users :: "User list"
  posts :: "Post list"
  videos :: "Video list"
  comments :: "Comment list"

datatype error = invalid_count | value_too_long | unique_violation | foreign_key_violation

section \<open>The query builder\<close>

text \<open>
  \<open>leftJoin\<close>: every row of the left table, once for each user whose id equals the
  row's foreign key, and once with a null user when there is none.
\<close>

definition leftJoin :: "'a list \<Rightarrow> User list \<Rightarrow> ('a \<Rightarrow> string) \<Rightarrow> ('a \<times> User option) list" where
  "leftJoin rows us fk =
     concat (map (\<lambda>r. case filter (\<lambda>u. u_id u = fk r) us of
                         [] \<Rightarrow> [(r, None)]
                       | ms \<Rightarrow> map (\<lambda>u. (r, Some u)) ms) rows)"

text \<open>
  \<open>orderBy scan (desc col)\<close>: a descending sort puts NULL first and then the larger
  values. The statement names no second key, so rows with equal keys come in an order of
  the store's choosing, which may differ from one call to the next: \<open>scan\<close> is the
  order in which the store came upon the rows in this call, a permutation of their
  positions (any other list stands for the order of the table), and rows with equal keys
  keep the order of the scan. The key negates the timestamp, so the ascending sort of the
  library on \<open>timestamp option\<close> (where \<open>None\<close> is least) is the descending order of
  the column.
\<close>

definition scan_order :: "nat list \<Rightarrow> 'r list \<Rightarrow> 'r list" where
  "scan_order scan rows = (if sort scan = [0..<length rows] then map ((!) rows) scan else rows)"

definition desc :: "('r \<Rightarrow> timestamp option) \<Rightarrow> 'r \<Rightarrow> timestamp option" where
  "desc col r = map_option uminus (col r)"

definition orderBy :: "nat list \<Rightarrow> ('r \<Rightarrow> timestamp option) \<Rightarrow> 'r list \<Rightarrow> 'r list" where
  "orderBy scan key rows = sort_key key (scan_order scan rows)"

text \<open>
  Conditions are three-valued, as in SQL: a comparison with NULL is NULL, and \<open>where\<close>
  keeps the rows whose condition is true.
\<close>

definition sql_eq :: "'a option \<Rightarrow> 'a \<Rightarrow> bool option" where
  "sql_eq col v = map_option (\<lambda>x. x = v) col"

fun sql_and :: "bool option \<Rightarrow> bool option \<Rightarrow> bool option" where
  "sql_and (Some False) _ = Some False"
| "sql_and _ (Some False) = Some False"
| "sql_and (Some True) (Some True) = Some True"
| "sql_and _ _ = None"

fun sql_or :: "bool option \<Rightarrow> bool option \<Rightarrow> bool option" where
  "sql_or (Some True) _ = Some True"
| "sql_or _ (Some True) = Some True"
| "sql_or (Some False) (Some False) = Some False"
| "sql_or _ _ = None"

definition sql_where :: "('r \<Rightarrow> bool option) \<Rightarrow> 'r list \<Rightarrow> 'r list" where
  "sql_where cond rows = filter (\<lambda>r. cond r = Some True) rows"

text \<open>
  \<open>like pattern s\<close>: the LIKE operator on characters. In the pattern \<open>%\<close> (37)
  matches any run of characters, \<open>_\<close> (95) any one character, and a backslash (92)
  makes the next character stand for itself. (The store rejects a pattern that ends in a
  lone backslash; the patterns built below end in \<open>%\<close>, so that equation is never
  reached with a match at stake and yields no match here.) \<open>ilike casefold\<close> matches after
  folding the case of the pattern and of the column. The folding is the store's, by the
  locale of the database, and is no part of this repository: \<open>casefold\<close> stands for it,
  character by character.
\<close>

fun like :: "ustring \<Rightarrow> ustring \<Rightarrow> bool" where
  "like [] s = (s = [])"
| "like (c # p) [] = (c = 37 \<and> like p [])"
| "like (c # p) (x # s) =
     (if c = 37 then like p (x # s) \<or> like (c # p) s
      else if c = 95 then like p s
      else if c = 92 then (case p of [] \<Rightarrow> False | e # p' \<Rightarrow> x = e \<and> like p' s)
      else x = c \<and> like p s)"

definition ilike :: "(codepoint \<Rightarrow> codepoint) \<Rightarrow> ustring option \<Rightarrow> ustring \<Rightarrow> bool option" where
  "ilike casefold col pattern = map_option (\<lambda>s. like (map casefold pattern) (map casefold s)) col"

text \<open>
  A default parameter value applies when the argument is left out; so does the default
  of a column that an insert leaves out, and a key that a \<open>set\<close> leaves out keeps the
  stored value. \<open>a ?? b\<close> is \<open>b\<close> when \<open>a\<close> is null.
\<close>

definition default_arg :: "'a \<Rightarrow> 'a option \<Rightarrow> 'a" where
  "default_arg d a = (case a of None \<Rightarrow> d | Some x \<Rightarrow> x)"

definition nullish :: "'a option \<Rightarrow> 'a \<Rightarrow> 'a" where
  "nullish a b = (case a of None \<Rightarrow> b | Some x \<Rightarrow> x)"

text \<open>
  \<open>limit\<close> and \<open>offset\<close> are numbers of the language, passed on unchecked: a finite
  number, not-a-number, or an infinity. The query builder writes a \<open>limit\<close> clause
  only for a number that is at least zero, and an \<open>offset\<close> clause only for a number
  that is not zero and not not-a-number. The store reads the value of a clause as a row
  count: a whole number from 0 below \<open>2 ^ 63\<close>; it rejects any other. \<open>offset\<close> is
  applied before \<open>limit\<close>.
\<close>

datatype number = Num rat | NaN | PosInfinity | NegInfinity

fun limit_clause :: "number \<Rightarrow> number option" where
  "limit_clause (Num q) = (if 0 \<le> q then Some (Num q) else None)"
| "limit_clause PosInfinity = Some PosInfinity"
| "limit_clause NaN = None"
| "limit_clause NegInfinity = None"

fun offset_clause :: "number \<Rightarrow> number option" where
  "offset_clause (Num q) = (if q = 0 then None else Some (Num q))"
| "offset_clause NaN = None"
| "offset_clause PosInfinity = Some PosInfinity"
| "offset_clause NegInfinity = Some NegInfinity"

fun row_count :: "number \<Rightarrow> error + nat" where
  "row_count (Num q) =
     (if of_int \<lfloor>q\<rfloor> = q \<and> 0 \<le> q \<and> q < 2 ^ 63 then Inr (nat \<lfloor>q\<rfloor>) else Inl invalid_count)"
| "row_count _ = Inl invalid_count"

definition page :: "number \<Rightarrow> number \<Rightarrow> 'r list \<Rightarrow> error + 'r list" where
  "page limit offset rows =
     (case (case offset_clause offset of None \<Rightarrow> Inr 0 | Some x \<Rightarrow> row_count x) of
        Inl e \<Rightarrow> Inl e
      | Inr skip \<Rightarrow>
          (case limit_clause limit of
             None \<Rightarrow> Inr (drop skip rows)
           | Some x \<Rightarrow>
               (case row_count x of
                  Inl e \<Rightarrow> Inl e
                | Inr n \<Rightarrow> Inr (take n (drop skip rows)))))"

text \<open>\<open>then_map f\<close>: the rows of a fulfilled query are mapped; a rejected one stays rejected.\<close>

definition then_map :: "('r \<Rightarrow> 's) \<Rightarrow> error + 'r list \<Rightarrow> error + 's list" where
  "then_map f result = (case result of Inl e \<Rightarrow> Inl e | Inr rows \<Rightarrow> Inr (map f rows))"


section \<open>User operations\<close>

definition getUser :: "string \<Rightarrow> db \<Rightarrow> User option" where
  "getUser i d = (case filter (\<lambda>u. u_id u = i) (users d) of [] \<Rightarrow> None | user # _ \<Rightarrow> Some user)"





section \<open>Reads with the author\<close>

text \<open>
  Every read maps its joined rows the same way: the columns of the entity, and the key
  \<open>author\<close> with the user of the join.
\<close>

definition postWithAuthor :: "Post \<times> User option \<Rightarrow> PostWithAuthor" where
  "postWithAuthor row = Post.extend (fst row) (PostWithAuthor.fields (snd row))"

definition videoWithAuthor :: "Video \<times> User option \<Rightarrow> VideoWithAuthor" where
  "videoWithAuthor row = Video.extend (fst row) (VideoWithAuthor.fields (snd row))"


definition getPosts :: "number option \<Rightarrow> number option \<Rightarrow> nat list \<Rightarrow> db \<Rightarrow> error + PostWithAuthor list" where
  "getPosts limit offset scan d =
     then_map postWithAuthor
       (page (default_arg (Num 20) limit) (default_arg (Num 0) offset)
         (orderBy scan (desc (p_createdAt \<circ> fst))
           (sql_where (\<lambda>row. sql_eq (p_published (fst row)) True)
             (leftJoin (posts d) (users d) p_authorId))))"


definition getPost :: "string \<Rightarrow> db \<Rightarrow> PostWithAuthor option" where
  "getPost i d =
     (let result = sql_where (\<lambda>row. sql_eq (Some (p_id (fst row))) i)
                     (leftJoin (posts d) (users d) p_authorId)
      in if length result = 0 then None
         else case result of row # _ \<Rightarrow> Some (postWithAuthor row))"


definition searchPosts :: "(codepoint \<Rightarrow> codepoint) \<Rightarrow> nat list \<Rightarrow> ustring \<Rightarrow> db \<Rightarrow> PostWithAuthor list" where
  "searchPosts casefold scan query d =
     map postWithAuthor
       (orderBy scan (desc (p_createdAt \<circ> fst))
         (sql_where (\<lambda>row. sql_and (sql_eq (p_published (fst row)) True)
                          (sql_or (ilike casefold (Some (p_title (fst row))) ([37] @ query @ [37]))
                            (sql_or (ilike casefold (Some (p_content (fst row))) ([37] @ query @ [37]))
                                    (ilike casefold (p_excerpt (fst row)) ([37] @ query @ [37])))))
           (leftJoin (posts d) (users d) p_authorId)))"

definition getVideos :: "number option \<Rightarrow> number option \<Rightarrow> nat list \<Rightarrow> db \<Rightarrow> error + VideoWithAuthor list" where
  "getVideos limit offset scan d =
     then_map videoWithAuthor
       (page (default_arg (Num 20) limit) (default_arg (Num 0) offset)
         (orderBy scan (desc (v_createdAt \<circ> fst))
           (sql_where (\<lambda>row. sql_eq (v_published (fst row)) True)
             (leftJoin (videos d) (users d) v_authorId))))"


definition getVideo :: "string \<Rightarrow> db \<Rightarrow> VideoWithAuthor option" where
  "getVideo i d =
     (let result = sql_where (\<lambda>row. sql_eq (Some (v_id (fst row))) i)
                     (leftJoin (videos d) (users d) v_authorId)
      in if length result = 0 then None
         else case result of row # _ \<Rightarrow> Some (videoWithAuthor row))"


definition searchVideos :: "(codepoint \<Rightarrow> codepoint) \<Rightarrow> nat list \<Rightarrow> ustring \<Rightarrow> db \<Rightarrow> VideoWithAuthor list" where
  "searchVideos casefold scan query d =
     map videoWithAuthor
       (orderBy scan (desc (v_createdAt \<circ> fst))
         (sql_where (\<lambda>row. sql_and (sql_eq (v_published (fst row)) True)
                          (sql_or (ilike casefold (Some (v_title (fst row))) ([37] @ query @ [37]))
                                  (ilike casefold (v_description (fst row)) ([37] @ query @ [37]))))
           (leftJoin (videos d) (users d) v_authorId)))"



text \<open>
  The rows that \<open>getPosts\<close> (\<open>getVideos\<close>) pages: the joined rows of the published
  entities, before any order.
\<close>

definition publishedPostRows :: "db \<Rightarrow> (Post \<times> User option) list" where
  "publishedPostRows d =
     sql_where (\<lambda>row. sql_eq (p_published (fst row)) True) (leftJoin (posts d) (users d) p_authorId)"

definition publishedVideoRows :: "db \<Rightarrow> (Video \<times> User option) list" where
  "publishedVideoRows d =
     sql_where (\<lambda>row. sql_eq (v_published (fst row)) True) (leftJoin (videos d) (users d) v_authorId)"

section \<open>Post, video and comment writes\<close>






definition deletePost :: "string \<Rightarrow> db \<Rightarrow> bool \<times> db" where
  "deletePost i d =
     (let rowCount = Some (length (filter (\<lambda>r. p_id r = i) (posts d)))
      in (nullish rowCount 0 > 0,
          d\<lparr>posts := filter (\<lambda>r. p_id r \<noteq> i) (posts d),
            comments := filter (\<lambda>c. c_postId c \<noteq> Some i) (comments d)\<rparr>))"




definition deleteVideo :: "string \<Rightarrow> db \<Rightarrow> bool \<times> db" where
  "deleteVideo i d =
     (let rowCount = Some (length (filter (\<lambda>r. v_id r = i) (videos d)))
      in (nullish rowCount 0 > 0,
          d\<lparr>videos := filter (\<lambda>r. v_id r \<noteq> i) (videos d),
            comments := filter (\<lambda>c. c_videoId c \<noteq> Some i) (comments d)\<rparr>))"


definition deleteComment :: "string \<Rightarrow> db \<Rightarrow> bool \<times> db" where
  "deleteComment i d =
     (let rowCount = Some (length (filter (\<lambda>c. c_id c = i) (comments d)))
      in (nullish rowCount 0 > 0,
          d\<lparr>comments := filter (\<lambda>c. c_id c \<noteq> i) (comments d)\<rparr>))"

section \<open>The writes as one step\<close>

text \<open>
  The writing operations of the storage interface, and the store after one of them, or
  the error of a rejected one. \<open>newId\<close> and \<open>now\<close> are the identifier the store would
  draw and the current time.
\<close>

datatype operation =
    Op_upsertUser UpsertUser
  | Op_createPost InsertPost
  | Op_updatePost string PartialInsertPost
  | Op_deletePost string
  | Op_createVideo InsertVideo
  | Op_updateVideo string PartialInsertVideo
  | Op_deleteVideo string
  | Op_createComment InsertComment
  | Op_deleteComment string



section \<open>Predicates of the specification\<close>

text \<open>
  \<open>descending ts\<close>: the column values \<open>ts\<close> of a result are in descending order, an
  absent timestamp before every present one and a later timestamp before an earlier one.
  \<open>counts x n\<close>: the number \<open>x\<close> is the row count \<open>n\<close>, a whole number from 0 below
  \<open>2 ^ 63\<close>. \<open>advanced before after\<close>: both timestamps are present and the second is
  the later one.
\<close>

fun later_or_equal :: "timestamp option \<Rightarrow> timestamp option \<Rightarrow> bool" where
  "later_or_equal None _ = True"
| "later_or_equal (Some a) None = False"
| "later_or_equal (Some a) (Some b) = (b \<le> a)"

definition descending :: "timestamp option list \<Rightarrow> bool" where
  "descending ts = sorted_wrt later_or_equal ts"

definition counts :: "number \<Rightarrow> nat \<Rightarrow> bool" where
  "counts x n = (x = Num (of_nat n) \<and> n < 2 ^ 63)"

fun advanced :: "timestamp option \<Rightarrow> timestamp option \<Rightarrow> bool" where
  "advanced (Some a) (Some b) = (a < b)"
| "advanced _ _ = False"

text \<open>
  \<open>primary_keys d\<close>: the ids of each table are unique. \<open>supplies_createdAt\<close>: the
  operation is an upsert whose data has the key \<open>createdAt\<close>. \<open>createdAt_kept d d'\<close>:
  every row of \<open>d'\<close> whose id is that of a row of the same table in \<open>d\<close> has that row's
  \<open>createdAt\<close>.
\<close>

definition primary_keys :: "db \<Rightarrow> bool" where
  "primary_keys d =
     (distinct (map u_id (users d)) \<and> distinct (map p_id (posts d))
      \<and> distinct (map v_id (videos d)) \<and> distinct (map c_id (comments d)))"

fun supplies_createdAt :: "operation \<Rightarrow> bool" where
  "supplies_createdAt (Op_upsertUser userData) = (uu_createdAt userData \<noteq> None)"
| "supplies_createdAt _ = False"

definition createdAt_kept :: "db \<Rightarrow> db \<Rightarrow> bool" where
  "createdAt_kept d d' =
     ((\<forall>r'\<in>set (users d'). \<forall>r\<in>set (users d). u_id r' = u_id r \<longrightarrow> u_createdAt r' = u_createdAt r)
      \<and> (\<forall>r'\<in>set (posts d'). \<forall>r\<in>set (posts d). p_id r' = p_id r \<longrightarrow> p_createdAt r' = p_createdAt r)
      \<and> (\<forall>r'\<in>set (videos d'). \<forall>r\<in>set (videos d). v_id r' = v_id r \<longrightarrow> v_createdAt r' = v_createdAt r)
      \<and> (\<forall>r'\<in>set (comments d'). \<forall>r\<in>set (comments d). c_id r' = c_id r \<longrightarrow> c_createdAt r' = c_createdAt r))"

section \<open>A small store for concrete runs\<close>

text \<open>
  One author; a draft (titled Draft), a published post (Hello, World, greeting) and a
  published post (abc, x) whose author row is missing; an unpublished video (Clip) and two
  published ones (Demo, described as A tour; Talk); one comment (nice). Texts are written
  as the code points of their characters.
\<close>

definition alice :: User where
  "alice = \<lparr>u_id = ''u1'', u_email = Some ''alice@example.org'', u_firstName = Some ''Alice'',
            u_lastName = None, u_profileImageUrl = None, u_role = Some ''author'',
            u_createdAt = Some 10, u_updatedAt = Some 10\<rparr>"

definition draft :: Post where
  "draft = \<lparr>p_id = ''p1'', p_title = [68, 114, 97, 102, 116], p_content = [119, 105, 112],
            p_excerpt = None, p_imageUrl = None, p_category = ''tech'', p_tags = None,
            p_authorId = ''u1'', p_published = Some False, p_createdAt = Some 100,
            p_updatedAt = Some 100\<rparr>"

definition hello :: Post where
  "hello = \<lparr>p_id = ''p2'', p_title = [72, 101, 108, 108, 111], p_content = [87, 111, 114, 108, 100],
            p_excerpt = Some [103, 114, 101, 101, 116, 105, 110, 103], p_imageUrl = None,
            p_category = ''tech'', p_tags = Some [''a''], p_authorId = ''u1'',
            p_published = Some True, p_createdAt = Some 200, p_updatedAt = Some 200\<rparr>"

definition orphan :: Post where
  "orphan = \<lparr>p_id = ''p3'', p_title = [97, 98, 99], p_content = [120], p_excerpt = None,
            p_imageUrl = None, p_category = ''misc'', p_tags = None, p_authorId = ''ghost'',
            p_published = Some True, p_createdAt = Some 300, p_updatedAt = Some 300\<rparr>"

definition clip :: Video where
  "clip = \<lparr>v_id = ''v1'', v_title = [67, 108, 105, 112], v_description = None,
           v_videoUrl = ''http://v/1'', v_thumbnailUrl = None, v_category = ''tech'',
           v_tags = None, v_duration = Some ''01:30'', v_authorId = ''u1'',
           v_published = Some False, v_createdAt = Some 150, v_updatedAt = Some 150\<rparr>"

definition demo :: Video where
  "demo = \<lparr>v_id = ''v2'', v_title = [68, 101, 109, 111], v_description = Some [65, 32, 116, 111, 117, 114],
           v_videoUrl = ''http://v/2'', v_thumbnailUrl = None, v_category = ''tech'',
           v_tags = None, v_duration = None, v_authorId = ''u1'', v_published = Some True,
           v_createdAt = Some 250, v_updatedAt = Some 250\<rparr>"

definition talk :: Video where
  "talk = \<lparr>v_id = ''v3'', v_title = [84, 97, 108, 107], v_description = None,
           v_videoUrl = ''http://v/3'', v_thumbnailUrl = None, v_category = ''misc'',
           v_tags = None, v_duration = None, v_authorId = ''u1'', v_published = Some True,
           v_createdAt = Some 350, v_updatedAt = Some 350\<rparr>"

definition remark :: Comment where
  "remark = \<lparr>c_id = ''c1'', c_content = [110, 105, 99, 101], c_authorId = ''u1'',
             c_postId = Some ''p2'', c_videoId = None, c_createdAt = Some 400,
             c_updatedAt = Some 400\<rparr>"

definition example_db :: db where
  "example_db = \<lparr>users = [alice], posts = [draft, hello, orphan], videos = [clip, demo, talk],
                  comments = [remark]\<rparr>"



text \<open>A store whose two published posts, and two published videos, were created at one time.\<close>

definition tied_db :: db where
  "tied_db = \<lparr>users = [alice],
               posts = [hello\<lparr>p_id := ''t1'', p_createdAt := Some 500\<rparr>,
                        hello\<lparr>p_id := ''t2'', p_createdAt := Some 500\<rparr>],
               videos = [demo\<lparr>v_id := ''w1'', v_createdAt := Some 500\<rparr>,
                         demo\<lparr>v_id := ''w2'', v_createdAt := Some 500\<rparr>],
               comments = []\<rparr>"

text \<open>A case folding for the concrete runs: that of the letters A to Z and of the accented E (201 to 233).\<close>

definition latin_fold :: "codepoint \<Rightarrow> codepoint" where
  "latin_fold c = (if 65 \<le> c \<and> c \<le> 90 \<or> c = 201 then c + 32 else c)"

text \<open>Two partial updates: a new title and publication for a post, a new description for a video.\<close>

definition retitle :: PartialInsertPost where
  "retitle = \<lparr>pp_title = Some [70, 105, 110, 97, 108], pp_content = None, pp_excerpt = None,
              pp_imageUrl = None, pp_category = None, pp_tags = None, pp_authorId = None,
              pp_published = Some (Some True)\<rparr>"

definition redescribe :: PartialInsertVideo where
  "redescribe = \<lparr>vp_title = None, vp_description = Some (Some [83, 104, 111, 114, 116]), vp_videoUrl = None,
                 vp_thumbnailUrl = None, vp_category = None, vp_tags = None, vp_duration = None,
                 vp_authorId = None, vp_published = None\<rparr>"

text \<open>Two comments to insert: one with both parents set, one with none.\<close>

definition both_parents :: InsertComment where
  "both_parents = \<lparr>ic_content = [104, 105], ic_authorId = ''u1'', ic_postId = Some (Some ''p2''),
                   ic_videoId = Some (Some ''v2'')\<rparr>"

definition no_parent :: InsertComment where
  "no_parent = \<lparr>ic_content = [104, 105], ic_authorId = ''u1'', ic_postId = None,
                ic_videoId = Some None\<rparr>"

text \<open>Data for upserts: a new user, later changes to it, and changes to the author.\<close>

definition signup :: UpsertUser where
  "signup = \<lparr>uu_id = Some ''u2'', uu_email = Some (Some ''bob@example.org''),
             uu_firstName = Some (Some ''Bob''), uu_lastName = None, uu_profileImageUrl = None,
             uu_role = None, uu_createdAt = None, uu_updatedAt = None\<rparr>"

definition rename :: UpsertUser where
  "rename = \<lparr>uu_id = Some ''u2'', uu_email = None, uu_firstName = Some (Some ''Robert''),
             uu_lastName = None, uu_profileImageUrl = None, uu_role = None, uu_createdAt = None,
             uu_updatedAt = None\<rparr>"

definition redate :: UpsertUser where
  "redate = \<lparr>uu_id = Some ''u2'', uu_email = None, uu_firstName = Some (Some ''Robert''),
             uu_lastName = None, uu_profileImageUrl = None, uu_role = None,
             uu_createdAt = Some (Some 5), uu_updatedAt = None\<rparr>"

definition promote :: UpsertUser where
  "promote = \<lparr>uu_id = Some ''u1'', uu_email = None, uu_firstName = None, uu_lastName = None,
              uu_profileImageUrl = None, uu_role = Some (Some ''admin''), uu_createdAt = None,
              uu_updatedAt = None\<rparr>"

definition backdate :: UpsertUser where
  "backdate = \<lparr>uu_id = Some ''u1'', uu_email = None, uu_firstName = None, uu_lastName = None,
               uu_profileImageUrl = None, uu_role = None, uu_createdAt = Some (Some 1),
               uu_updatedAt = None\<rparr>"

definition anonymous :: UpsertUser where
  "anonymous = \<lparr>uu_id = None, uu_email = None, uu_firstName = Some (Some ''Guest''),
                uu_lastName = None, uu_profileImageUrl = None, uu_role = None, uu_createdAt = None,
                uu_updatedAt = None\<rparr>"

lemmas ex_defs = example_db_def alice_def draft_def hello_def orphan_def clip_def demo_def talk_def remark_def

section \<open>Joins and point lookups\<close>

lemma find_filter_conv: "find P xs = (case filter P xs of [] \<Rightarrow> None | x # _ \<Rightarrow> Some x)"
  by (induction xs) auto

lemma leftJoin_Nil: "leftJoin [] us fk = []"
  by (simp add: leftJoin_def)

lemma leftJoin_Cons:
  "leftJoin (r # rs) us fk =
     (case filter (\<lambda>u. u_id u = fk r) us of [] \<Rightarrow> [(r, None)] | ms \<Rightarrow> map (\<lambda>u. (r, Some u)) ms)
       @ leftJoin rs us fk"
  by (simp add: leftJoin_def)

lemma filter_leftJoin:
  "filter (\<lambda>row. P (fst row)) (leftJoin rows us fk) = leftJoin (filter P rows) us fk"
  by (induction rows) (auto simp: leftJoin_Nil leftJoin_Cons split: list.splits)

lemma leftJoin_first:
  "(case leftJoin rows us fk of [] \<Rightarrow> None | row # _ \<Rightarrow> Some row)
     = map_option (\<lambda>r. (r, find (\<lambda>u. u_id u = fk r) us)) (case rows of [] \<Rightarrow> None | r # _ \<Rightarrow> Some r)"
  by (cases rows) (auto simp: leftJoin_Nil leftJoin_Cons find_filter_conv split: list.splits)

lemma first_row_guarded:
  "(if length xs = 0 then None else case xs of row # _ \<Rightarrow> Some (f row))
     = map_option f (case xs of [] \<Rightarrow> None | row # _ \<Rightarrow> Some row)"
  by (cases xs) simp_all

lemma getPost_eq:
  "getPost i d = map_option (\<lambda>p. postWithAuthor (p, find (\<lambda>u. u_id u = p_authorId p) (users d)))
                   (find (\<lambda>p. p_id p = i) (posts d))"
proof -
  have "getPost i d = map_option postWithAuthor
          (case leftJoin (filter (\<lambda>p. p_id p = i) (posts d)) (users d) p_authorId of
             [] \<Rightarrow> None | row # _ \<Rightarrow> Some row)"
    by (simp only: getPost_def Let_def sql_where_def sql_eq_def option.map option.inject eq_True
          filter_leftJoin [of "\<lambda>p. p_id p = i"] first_row_guarded [where f = postWithAuthor])
  also have "\<dots> = map_option postWithAuthor
          (map_option (\<lambda>r. (r, find (\<lambda>u. u_id u = p_authorId r) (users d)))
             (find (\<lambda>p. p_id p = i) (posts d)))"
    by (simp only: leftJoin_first find_filter_conv)
  finally show ?thesis
    by (simp add: option.map_comp comp_def)
qed

lemma getVideo_eq:
  "getVideo i d = map_option (\<lambda>p. videoWithAuthor (p, find (\<lambda>u. u_id u = v_authorId p) (users d)))
                   (find (\<lambda>p. v_id p = i) (videos d))"
proof -
  have "getVideo i d = map_option videoWithAuthor
          (case leftJoin (filter (\<lambda>p. v_id p = i) (videos d)) (users d) v_authorId of
             [] \<Rightarrow> None | row # _ \<Rightarrow> Some row)"
    by (simp only: getVideo_def Let_def sql_where_def sql_eq_def option.map option.inject eq_True
          filter_leftJoin [of "\<lambda>p. v_id p = i"] first_row_guarded [where f = videoWithAuthor])
  also have "\<dots> = map_option videoWithAuthor
          (map_option (\<lambda>r. (r, find (\<lambda>u. u_id u = v_authorId r) (users d)))
             (find (\<lambda>p. v_id p = i) (videos d)))"
    by (simp only: leftJoin_first find_filter_conv)
  finally show ?thesis
    by (simp add: option.map_comp comp_def)
qed

lemma find_None_all: "(\<forall>x\<in>set xs. \<not> P x) \<Longrightarrow> find P xs = None"
  by (simp add: find_None_iff)

lemma postWithAuthor_sel:
  "p_id (postWithAuthor row) = p_id (fst row)"
  "p_published (postWithAuthor row) = p_published (fst row)"
  "p_createdAt (postWithAuthor row) = p_createdAt (fst row)"
  "p_authorId (postWithAuthor row) = p_authorId (fst row)"
  "p_author (postWithAuthor row) = snd row"
  "Post.truncate (postWithAuthor row) = fst row"
  by (simp_all add: postWithAuthor_def Post.extend_def Post.truncate_def PostWithAuthor.fields_def)

lemma videoWithAuthor_sel:
  "v_id (videoWithAuthor row) = v_id (fst row)"
  "v_published (videoWithAuthor row) = v_published (fst row)"
  "v_createdAt (videoWithAuthor row) = v_createdAt (fst row)"
  "v_authorId (videoWithAuthor row) = v_authorId (fst row)"
  "v_author (videoWithAuthor row) = snd row"
  "Video.truncate (videoWithAuthor row) = fst row"
  by (simp_all add: videoWithAuthor_def Video.extend_def Video.truncate_def VideoWithAuthor.fields_def)


lemma sql_eq_True: "(sql_eq col v = Some True) = (col = Some v)"
  by (cases col) (simp_all add: sql_eq_def)

text \<open>
  C2. \<open>getPost\<close> and \<open>getVideo\<close> have no publish gate: when the table holds a row of
  the id, the result is present, its columns are those of the row, whatever its
  \<open>published\<close> column says, and its author is the user the join found for the row; when
  no row has the id, the result is absent.
\<close>

theorem getPost_getVideo_no_publish_gate:
  "(find (\<lambda>p. p_id p = i) (posts d) = Some p \<longrightarrow>
      getPost i d = Some (postWithAuthor (p, find (\<lambda>u. u_id u = p_authorId p) (users d)))
      \<and> (\<exists>r. getPost i d = Some r \<and> Post.truncate r = p \<and> p_published r = p_published p
             \<and> p_author r = find (\<lambda>u. u_id u = p_authorId p) (users d)))
   \<and> ((\<forall>p\<in>set (posts d). p_id p \<noteq> i) \<longrightarrow> getPost i d = None)
   \<and> (find (\<lambda>v. v_id v = i) (videos d) = Some v \<longrightarrow>
      getVideo i d = Some (videoWithAuthor (v, find (\<lambda>u. u_id u = v_authorId v) (users d)))
      \<and> (\<exists>r. getVideo i d = Some r \<and> Video.truncate r = v \<and> v_published r = v_published v
             \<and> v_author r = find (\<lambda>u. u_id u = v_authorId v) (users d)))
   \<and> ((\<forall>v\<in>set (videos d). v_id v \<noteq> i) \<longrightarrow> getVideo i d = None)"
  by (simp add: getPost_eq getVideo_eq find_None_all postWithAuthor_sel videoWithAuthor_sel)

theorem getPost_getVideo_no_publish_gate_witness:
  "find (\<lambda>p. p_id p = ''p1'') (posts example_db) = Some draft
   \<and> p_published draft = Some False
   \<and> map_option Post.truncate (getPost ''p1'' example_db) = Some draft
   \<and> map_option p_author (getPost ''p1'' example_db) = Some (Some alice)
   \<and> ''p9'' \<notin> set (map p_id (posts example_db))
   \<and> getPost ''p9'' example_db = None
   \<and> find (\<lambda>v. v_id v = ''v1'') (videos example_db) = Some clip
   \<and> v_published clip = Some False
   \<and> map_option Video.truncate (getVideo ''v1'' example_db) = Some clip
   \<and> map_option v_author (getVideo ''v1'' example_db) = Some (Some alice)
   \<and> ''v9'' \<notin> set (map v_id (videos example_db))
   \<and> getVideo ''v9'' example_db = None"
proof -
  have hyp: "find (\<lambda>p. p_id p = ''p1'') (posts example_db) = Some draft"
    "find (\<lambda>v. v_id v = ''v1'') (videos example_db) = Some clip"
    "''p9'' \<notin> set (map p_id (posts example_db))" "''v9'' \<notin> set (map v_id (videos example_db))"
    "p_published draft = Some False" "v_published clip = Some False"
    by (simp_all add: ex_defs)
  have join: "find (\<lambda>u. u_id u = p_authorId draft) (users example_db) = Some alice"
    "find (\<lambda>u. u_id u = v_authorId clip) (users example_db) = Some alice"
    by (simp_all add: ex_defs)
  from getPost_getVideo_no_publish_gate [of "''p1''" example_db draft clip] hyp(1) join(1)
  have 1: "map_option Post.truncate (getPost ''p1'' example_db) = Some draft"
    "map_option p_author (getPost ''p1'' example_db) = Some (Some alice)"
    by auto
  from getPost_getVideo_no_publish_gate [of "''v1''" example_db draft clip] hyp(2) join(2)
  have 2: "map_option Video.truncate (getVideo ''v1'' example_db) = Some clip"
    "map_option v_author (getVideo ''v1'' example_db) = Some (Some alice)"
    by auto
  have none: "\<forall>p\<in>set (posts example_db). p_id p \<noteq> ''p9''"
    "\<forall>v\<in>set (videos example_db). v_id v \<noteq> ''v9''"
    by (simp_all add: ex_defs)
  from getPost_getVideo_no_publish_gate [of "''p9''" example_db draft clip] none(1)
  have 3: "getPost ''p9'' example_db = None"
    by blast
  from getPost_getVideo_no_publish_gate [of "''v9''" example_db draft clip] none(2)
  have 4: "getVideo ''v9'' example_db = None"
    by blast
  from hyp 1 2 3 4 show ?thesis
    by (intro conjI)
qed

section \<open>Ordering and pages\<close>

lemma sorted_desc_keys: "sorted (map (map_option uminus) ts) \<Longrightarrow> descending ts"
  unfolding descending_def sorted_wrt_map
proof (erule sorted_wrt_mono_rel [rotated])
  fix a b :: "timestamp option"
  assume "map_option uminus a \<le> map_option uminus b"
  then show "later_or_equal a b"
    by (cases a; cases b) simp_all
qed

lemma mset_scan_order: "mset (scan_order scan rows) = mset rows"
proof (cases "sort scan = [0..<length rows]")
  case True
  have "mset (map ((!) rows) scan) = image_mset ((!) rows) (mset (sort scan))"
    by simp
  also have "\<dots> = mset (map ((!) rows) [0..<length rows])"
    by (simp only: True mset_map)
  also have "\<dots> = mset rows"
    by (simp only: map_nth)
  finally show ?thesis
    using True by (simp add: scan_order_def)
next
  case False
  then show ?thesis by (simp add: scan_order_def)
qed

lemma mset_orderBy: "mset (orderBy scan key rows) = mset rows"
  by (simp add: orderBy_def mset_scan_order)

lemma set_orderBy: "set (orderBy scan key rows) = set rows"
  using mset_orderBy [of scan key rows] by (rule mset_eq_setD)


lemma descending_orderBy: "descending (map col (orderBy scan (desc col) rows))"
proof -
  have "sorted (map (desc col) (sort_key (desc col) (scan_order scan rows)))"
    by (rule sorted_sort_key)
  moreover have "map (desc col) xs = map (map_option uminus) (map col xs)" for xs
    by (simp add: desc_def)
  ultimately show ?thesis
    by (simp add: orderBy_def sorted_desc_keys)
qed

lemma descending_take: "descending ts \<Longrightarrow> descending (take n ts)"
  by (simp add: descending_def)

lemma descending_drop: "descending ts \<Longrightarrow> descending (drop n ts)"
  by (simp add: descending_def)

lemma sort_key_unique:
  assumes "mset xs = mset ys" and "distinct (map key ys)"
  shows "sort_key key xs = sort_key key ys"
proof -
  let ?a = "sort_key key xs" and ?b = "sort_key key ys"
  have xy: "set xs = set ys"
    using assms(1) by (rule mset_eq_setD)
  then have sets: "set ?a = set ys" "set ?b = set ys"
    by (simp_all only: set_sort)
  have ma: "mset (map key ?a) = mset (map key ys)"
    by (simp only: mset_map mset_sort assms(1))
  have mb: "mset (map key ?b) = mset (map key ys)"
    by (simp only: mset_map mset_sort)
  have da: "distinct (map key ?a)"
    using mset_eq_imp_distinct_iff [OF ma] assms(2) by (rule iffD2)
  have db: "distinct (map key ?b)"
    using mset_eq_imp_distinct_iff [OF mb] assms(2) by (rule iffD2)
  have s: "set (map key ?a) = set (map key ?b)"
    by (rule mset_eq_setD) (simp only: ma mb)
  have "map key ?a = map key ?b"
    by (rule sorted_distinct_set_unique [OF sorted_sort_key da sorted_sort_key db s])
  moreover from assms(2) have "inj_on key (set ?a \<union> set ?b)"
    by (simp add: xy distinct_map)
  ultimately show ?thesis
    by (simp only: inj_on_map_eq_map)
qed

lemma orderBy_unique:
  assumes "distinct (map key rows)"
  shows "orderBy scan key rows = orderBy scan' key rows"
proof -
  have "sort_key key (scan_order scan rows) = sort_key key rows"
    "sort_key key (scan_order scan' rows) = sort_key key rows"
    by (rule sort_key_unique [OF mset_scan_order assms])+
  then show ?thesis
    by (simp add: orderBy_def)
qed

lemma row_count_counts: "counts x n \<Longrightarrow> row_count x = Inr n"
  by (simp add: counts_def)

lemma page_counts:
  assumes "counts limit n" and "counts offset m"
  shows "page limit offset rows = Inr (take n (drop m rows))"
proof -
  from assms(1) have l: "limit_clause limit = Some limit"
    by (simp add: counts_def)
  have o: "(case offset_clause offset of None \<Rightarrow> Inr 0 | Some x \<Rightarrow> row_count x) = Inr m"
  proof (cases "m = 0")
    case True
    with assms(2) show ?thesis by (simp add: counts_def)
  next
    case False
    with assms(2) have "offset_clause offset = Some offset"
      by (simp add: counts_def)
    with row_count_counts [OF assms(2)] show ?thesis by simp
  qed
  show ?thesis
    by (simp add: page_def l o row_count_counts [OF assms(1)])
qed

lemma page_no_limit:
  assumes "q < 0" and "counts offset m"
  shows "page (Num q) offset rows = Inr (drop m rows)"
proof -
  have o: "(case offset_clause offset of None \<Rightarrow> Inr 0 | Some x \<Rightarrow> row_count x) = Inr m"
  proof (cases "m = 0")
    case True
    with assms(2) show ?thesis by (simp add: counts_def)
  next
    case False
    with assms(2) have "offset_clause offset = Some offset"
      by (simp add: counts_def)
    with row_count_counts [OF assms(2)] show ?thesis by simp
  qed
  from assms(1) show ?thesis
    by (simp add: page_def o)
qed

lemma page_negative_offset: "q < 0 \<Longrightarrow> page limit (Num q) rows = Inl invalid_count"
  by (simp add: page_def)

lemma filter_unique_key:
  "distinct (map f xs) \<Longrightarrow> length (filter (\<lambda>u. f u = k) xs) \<le> 1"
  by (induction xs) (auto simp: filter_empty_conv image_iff)

lemma leftJoin_fst:
  assumes "distinct (map u_id us)"
  shows "map fst (leftJoin rows us fk) = rows"
proof (induction rows)
  case Nil
  show ?case by (simp add: leftJoin_def)
next
  case (Cons r rs)
  have "length (filter (\<lambda>u. u_id u = fk r) us) \<le> 1"
    using assms by (rule filter_unique_key)
  then have "map fst (case filter (\<lambda>u. u_id u = fk r) us of [] \<Rightarrow> [(r, None)]
                       | ms \<Rightarrow> map (\<lambda>u. (r, Some u)) ms) = [r]"
    by (cases "filter (\<lambda>u. u_id u = fk r) us") (simp_all add: comp_def)
  with Cons show ?case
    by (simp add: leftJoin_def)
qed


lemma page_concat: "take k xs @ take k (drop k xs) = take (2 * k) xs"
  by (simp add: take_add mult_2)

lemma then_map_Inr: "then_map f (Inr rows) = Inr (map f rows)"
  by (simp add: then_map_def)

lemma then_map_Inl: "then_map f (Inl e) = Inl e"
  by (simp add: then_map_def)

lemma inj_desc_key: "inj (map_option (uminus :: int \<Rightarrow> int))"
  by (rule option.inj_map) (simp add: inj_on_def)

lemma publishedPostRows_filter:
  "publishedPostRows d
     = filter (\<lambda>row. p_published (fst row) = Some True) (leftJoin (posts d) (users d) p_authorId)"
  by (simp add: publishedPostRows_def sql_where_def sql_eq_True)

lemma getPosts_rows:
  "getPosts limit offset scan d =
     then_map postWithAuthor
       (page (default_arg (Num 20) limit) (default_arg (Num 0) offset)
         (orderBy scan (desc (p_createdAt \<circ> fst)) (publishedPostRows d)))"
  by (simp add: getPosts_def publishedPostRows_def)

lemma publishedPostRows_fst:
  assumes "distinct (map u_id (users d))"
  shows "map fst (publishedPostRows d) = filter (\<lambda>p. p_published p = Some True) (posts d)"
proof -
  let ?join = "leftJoin (posts d) (users d) p_authorId"
  have "map fst (publishedPostRows d) = filter (\<lambda>p. p_published p = Some True) (map fst ?join)"
    by (simp add: publishedPostRows_filter filter_map comp_def)
  also have "map fst ?join = posts d"
    by (rule leftJoin_fst [OF assms])
  finally show ?thesis .
qed

lemma postWithAuthor_rows:
  "map Post.truncate (map postWithAuthor rows) = map fst rows"
  "map p_author (map postWithAuthor rows) = map snd rows"
  "map p_createdAt (map postWithAuthor rows) = map (p_createdAt \<circ> fst) rows"
  "map p_id (map postWithAuthor rows) = map p_id (map fst rows)"
  by (simp_all add: postWithAuthor_sel comp_def)

lemma getPosts_page:
  "getPosts None offset scan d = getPosts (Some (Num 20)) offset scan d
   \<and> getPosts limit None scan d = getPosts limit (Some (Num 0)) scan d
   \<and> (\<exists>ordering.
         mset ordering = filter_mset (\<lambda>row. p_published (fst row) = Some True)
                           (mset (leftJoin (posts d) (users d) p_authorId))
         \<and> descending (map (p_createdAt \<circ> fst) ordering)
         \<and> (\<forall>l offs. getPosts l offs scan d =
               then_map postWithAuthor (page (default_arg (Num 20) l) (default_arg (Num 0) offs) ordering))
         \<and> (\<forall>l offs n m. counts l n \<and> counts offs m \<longrightarrow>
               getPosts (Some l) (Some offs) scan d = Inr (map postWithAuthor (take n (drop m ordering))))
         \<and> (\<forall>q offs m. q < 0 \<and> counts offs m \<longrightarrow>
               getPosts (Some (Num q)) (Some offs) scan d = Inr (map postWithAuthor (drop m ordering))))
   \<and> (counts lmt n \<and> counts ofs m \<longrightarrow>
        (\<exists>rows. getPosts (Some lmt) (Some ofs) scan d = Inr rows
           \<and> length rows \<le> n
           \<and> (\<forall>r\<in>set rows. p_published r = Some True)
           \<and> descending (map p_createdAt rows)))
   \<and> (q < 0 \<longrightarrow> getPosts limit (Some (Num q)) scan d = Inl invalid_count)"
proof (intro conjI)
  let ?ord = "orderBy scan (desc (p_createdAt \<circ> fst)) (publishedPostRows d)"
  show "getPosts None offset scan d = getPosts (Some (Num 20)) offset scan d"
    "getPosts limit None scan d = getPosts limit (Some (Num 0)) scan d"
    by (simp_all add: getPosts_def default_arg_def)
  have m: "mset ?ord = filter_mset (\<lambda>row. p_published (fst row) = Some True)
                           (mset (leftJoin (posts d) (users d) p_authorId))"
    by (simp add: mset_orderBy publishedPostRows_filter)
  have ds: "descending (map (p_createdAt \<circ> fst) ?ord)"
    by (rule descending_orderBy)
  have pub: "\<forall>row\<in>set ?ord. p_published (fst row) = Some True"
    by (simp add: set_orderBy publishedPostRows_filter)
  have g: "getPosts (Some l) (Some offs) scan d = Inr (map postWithAuthor (take n' (drop m' ?ord)))"
    if "counts l n'" "counts offs m'" for l offs n' m'
    by (simp add: getPosts_rows default_arg_def page_counts [OF that] then_map_Inr)
  have u: "getPosts (Some (Num q')) (Some offs) scan d = Inr (map postWithAuthor (drop m' ?ord))"
    if "q' < 0" "counts offs m'" for q' offs m'
    by (simp add: getPosts_rows default_arg_def page_no_limit [OF that] then_map_Inr)
  from m ds g u getPosts_rows
  show "\<exists>ordering.
         mset ordering = filter_mset (\<lambda>row. p_published (fst row) = Some True)
                           (mset (leftJoin (posts d) (users d) p_authorId))
         \<and> descending (map (p_createdAt \<circ> fst) ordering)
         \<and> (\<forall>l offs. getPosts l offs scan d =
               then_map postWithAuthor (page (default_arg (Num 20) l) (default_arg (Num 0) offs) ordering))
         \<and> (\<forall>l offs n m. counts l n \<and> counts offs m \<longrightarrow>
               getPosts (Some l) (Some offs) scan d = Inr (map postWithAuthor (take n (drop m ordering))))
         \<and> (\<forall>q offs m. q < 0 \<and> counts offs m \<longrightarrow>
               getPosts (Some (Num q)) (Some offs) scan d = Inr (map postWithAuthor (drop m ordering)))"
    by blast
  show "counts lmt n \<and> counts ofs m \<longrightarrow>
        (\<exists>rows. getPosts (Some lmt) (Some ofs) scan d = Inr rows
           \<and> length rows \<le> n
           \<and> (\<forall>r\<in>set rows. p_published r = Some True)
           \<and> descending (map p_createdAt rows))"
  proof
    assume c: "counts lmt n \<and> counts ofs m"
    let ?rows = "map postWithAuthor (take n (drop m ?ord))"
    from c have 1: "getPosts (Some lmt) (Some ofs) scan d = Inr ?rows"
      by (simp add: g)
    have 2: "length ?rows \<le> n"
      by simp
    have "set (take n (drop m ?ord)) \<subseteq> set ?ord"
      by (meson set_take_subset set_drop_subset subset_trans)
    with pub have 3: "\<forall>r\<in>set ?rows. p_published r = Some True"
      by (auto simp: postWithAuthor_sel)
    have "map p_createdAt ?rows = take n (drop m (map (p_createdAt \<circ> fst) ?ord))"
      by (simp add: postWithAuthor_sel comp_def take_map drop_map)
    with ds have 4: "descending (map p_createdAt ?rows)"
      by (simp add: descending_take descending_drop)
    from 1 2 3 4 show "\<exists>rows. getPosts (Some lmt) (Some ofs) scan d = Inr rows
           \<and> length rows \<le> n
           \<and> (\<forall>r\<in>set rows. p_published r = Some True)
           \<and> descending (map p_createdAt rows)"
      by blast
  qed
  show "q < 0 \<longrightarrow> getPosts limit (Some (Num q)) scan d = Inl invalid_count"
    by (simp add: getPosts_rows default_arg_def page_negative_offset then_map_Inl)
qed

lemma getPosts_consecutive_pages:
  assumes uk: "distinct (map u_id (users d))" and pk: "distinct (map p_id (posts d))"
    and stamps: "distinct (map p_createdAt (filter (\<lambda>p. p_published p = Some True) (posts d)))"
    and k: "counts k n"
  shows "\<exists>ordering rows1 rows2.
       mset ordering = filter_mset (\<lambda>row. p_published (fst row) = Some True)
                         (mset (leftJoin (posts d) (users d) p_authorId))
       \<and> descending (map (p_createdAt \<circ> fst) ordering)
       \<and> getPosts (Some k) (Some (Num 0)) scan d = Inr rows1
       \<and> getPosts (Some k) (Some k) scan' d = Inr rows2
       \<and> rows1 = map postWithAuthor (take n ordering)
       \<and> rows2 = map postWithAuthor (take n (drop n ordering))
       \<and> map Post.truncate (rows1 @ rows2) = take (2 * n) (map fst ordering)
       \<and> descending (map p_createdAt (rows1 @ rows2))
       \<and> distinct (map p_id (rows1 @ rows2))
       \<and> set rows1 \<inter> set rows2 = {}
       \<and> (length (filter (\<lambda>p. p_published p = Some True) (posts d)) \<le> 2 * n \<longrightarrow>
            set (map Post.truncate (rows1 @ rows2)) = {p \<in> set (posts d). p_published p = Some True})"
proof -
  let ?key = "desc (p_createdAt \<circ> fst)"
  let ?ord = "orderBy scan ?key (publishedPostRows d)"
  let ?P1 = "map postWithAuthor (take n ?ord)" and ?P2 = "map postWithAuthor (take n (drop n ?ord))"
  have "map ?key (publishedPostRows d)
          = map (map_option uminus) (map p_createdAt (map fst (publishedPostRows d)))"
    by (simp add: desc_def)
  also have "\<dots> = map (map_option uminus)
                     (map p_createdAt (filter (\<lambda>p. p_published p = Some True) (posts d)))"
    by (simp only: publishedPostRows_fst [OF uk])
  finally have "distinct (map ?key (publishedPostRows d))"
    using stamps inj_desc_key by (simp add: distinct_map inj_on_def inj_def)
  then have same: "orderBy scan' ?key (publishedPostRows d) = ?ord"
    by (rule orderBy_unique)
  have zero: "counts (Num 0) 0"
    by (simp add: counts_def)
  have m: "mset ?ord = filter_mset (\<lambda>row. p_published (fst row) = Some True)
                           (mset (leftJoin (posts d) (users d) p_authorId))"
    by (simp add: mset_orderBy publishedPostRows_filter)
  have ds: "descending (map (p_createdAt \<circ> fst) ?ord)"
    by (rule descending_orderBy)
  have p1: "getPosts (Some k) (Some (Num 0)) scan d = Inr ?P1"
    by (simp add: getPosts_rows default_arg_def page_counts [OF k zero] then_map_Inr)
  have p2: "getPosts (Some k) (Some k) scan' d = Inr ?P2"
    by (simp add: getPosts_rows default_arg_def page_counts [OF k k] then_map_Inr same)
  have cat: "?P1 @ ?P2 = map postWithAuthor (take (2 * n) ?ord)"
    by (simp only: page_concat flip: map_append)
  have trunc: "map Post.truncate (?P1 @ ?P2) = take (2 * n) (map fst ?ord)"
    unfolding cat by (simp add: postWithAuthor_sel comp_def take_map)
  have "map p_createdAt (?P1 @ ?P2) = take (2 * n) (map (p_createdAt \<circ> fst) ?ord)"
    unfolding cat by (simp add: postWithAuthor_sel comp_def take_map)
  with ds have desc: "descending (map p_createdAt (?P1 @ ?P2))"
    by (simp add: descending_take)
  have ids: "map p_id (?P1 @ ?P2) = take (2 * n) (map p_id (map fst ?ord))"
    unfolding cat by (simp add: postWithAuthor_sel comp_def take_map)
  have perm: "mset (map fst ?ord) = mset (filter (\<lambda>p. p_published p = Some True) (posts d))"
    by (simp only: mset_map mset_orderBy flip: publishedPostRows_fst [OF uk])
  then have "mset (map p_id (map fst ?ord))
          = mset (map p_id (filter (\<lambda>p. p_published p = Some True) (posts d)))"
    by (metis mset_map)
  moreover have "distinct (map p_id (filter (\<lambda>p. p_published p = Some True) (posts d)))"
    using pk by (rule distinct_map_filter)
  ultimately have "distinct (map p_id (map fst ?ord))"
    by (metis mset_eq_imp_distinct_iff)
  then have dd: "distinct (map p_id (?P1 @ ?P2))"
    unfolding ids by (rule distinct_take)
  then have "distinct (?P1 @ ?P2)"
    by (simp only: distinct_map)
  then have disj: "set ?P1 \<inter> set ?P2 = {}"
    by simp
  have cover: "length (filter (\<lambda>p. p_published p = Some True) (posts d)) \<le> 2 * n \<longrightarrow>
            set (map Post.truncate (?P1 @ ?P2)) = {p \<in> set (posts d). p_published p = Some True}"
  proof
    assume fit: "length (filter (\<lambda>p. p_published p = Some True) (posts d)) \<le> 2 * n"
    from perm have "length (map fst ?ord) = length (filter (\<lambda>p. p_published p = Some True) (posts d))"
      by (rule mset_eq_length)
    with fit have "take (2 * n) (map fst ?ord) = map fst ?ord"
      by simp
    moreover from perm have "set (map fst ?ord) = set (filter (\<lambda>p. p_published p = Some True) (posts d))"
      by (rule mset_eq_setD)
    ultimately show "set (map Post.truncate (?P1 @ ?P2)) = {p \<in> set (posts d). p_published p = Some True}"
      unfolding trunc by simp
  qed
  from m ds p1 p2 trunc desc dd disj cover show ?thesis
    by blast
qed

lemma publishedVideoRows_filter:
  "publishedVideoRows d
     = filter (\<lambda>row. v_published (fst row) = Some True) (leftJoin (videos d) (users d) v_authorId)"
  by (simp add: publishedVideoRows_def sql_where_def sql_eq_True)

lemma getVideos_rows:
  "getVideos limit offset scan d =
     then_map videoWithAuthor
       (page (default_arg (Num 20) limit) (default_arg (Num 0) offset)
         (orderBy scan (desc (v_createdAt \<circ> fst)) (publishedVideoRows d)))"
  by (simp add: getVideos_def publishedVideoRows_def)

lemma publishedVideoRows_fst:
  assumes "distinct (map u_id (users d))"
  shows "map fst (publishedVideoRows d) = filter (\<lambda>p. v_published p = Some True) (videos d)"
proof -
  let ?join = "leftJoin (videos d) (users d) v_authorId"
  have "map fst (publishedVideoRows d) = filter (\<lambda>p. v_published p = Some True) (map fst ?join)"
    by (simp add: publishedVideoRows_filter filter_map comp_def)
  also have "map fst ?join = videos d"
    by (rule leftJoin_fst [OF assms])
  finally show ?thesis .
qed

lemma videoWithAuthor_rows:
  "map Video.truncate (map videoWithAuthor rows) = map fst rows"
  "map v_author (map videoWithAuthor rows) = map snd rows"
  "map v_createdAt (map videoWithAuthor rows) = map (v_createdAt \<circ> fst) rows"
  "map v_id (map videoWithAuthor rows) = map v_id (map fst rows)"
  by (simp_all add: videoWithAuthor_sel comp_def)

lemma getVideos_page:
  "getVideos None offset scan d = getVideos (Some (Num 20)) offset scan d
   \<and> getVideos limit None scan d = getVideos limit (Some (Num 0)) scan d
   \<and> (\<exists>ordering.
         mset ordering = filter_mset (\<lambda>row. v_published (fst row) = Some True)
                           (mset (leftJoin (videos d) (users d) v_authorId))
         \<and> descending (map (v_createdAt \<circ> fst) ordering)
         \<and> (\<forall>l offs. getVideos l offs scan d =
               then_map videoWithAuthor (page (default_arg (Num 20) l) (default_arg (Num 0) offs) ordering))
         \<and> (\<forall>l offs n m. counts l n \<and> counts offs m \<longrightarrow>
               getVideos (Some l) (Some offs) scan d = Inr (map videoWithAuthor (take n (drop m ordering))))
         \<and> (\<forall>q offs m. q < 0 \<and> counts offs m \<longrightarrow>
               getVideos (Some (Num q)) (Some offs) scan d = Inr (map videoWithAuthor (drop m ordering))))
   \<and> (counts lmt n \<and> counts ofs m \<longrightarrow>
        (\<exists>rows. getVideos (Some lmt) (Some ofs) scan d = Inr rows
           \<and> length rows \<le> n
           \<and> (\<forall>r\<in>set rows. v_published r = Some True)
           \<and> descending (map v_createdAt rows)))
   \<and> (q < 0 \<longrightarrow> getVideos limit (Some (Num q)) scan d = Inl invalid_count)"
proof (intro conjI)
  let ?ord = "orderBy scan (desc (v_createdAt \<circ> fst)) (publishedVideoRows d)"
  show "getVideos None offset scan d = getVideos (Some (Num 20)) offset scan d"
    "getVideos limit None scan d = getVideos limit (Some (Num 0)) scan d"
    by (simp_all add: getVideos_def default_arg_def)
  have m: "mset ?ord = filter_mset (\<lambda>row. v_published (fst row) = Some True)
                           (mset (leftJoin (videos d) (users d) v_authorId))"
    by (simp add: mset_orderBy publishedVideoRows_filter)
  have ds: "descending (map (v_createdAt \<circ> fst) ?ord)"
    by (rule descending_orderBy)
  have pub: "\<forall>row\<in>set ?ord. v_published (fst row) = Some True"
    by (simp add: set_orderBy publishedVideoRows_filter)
  have g: "getVideos (Some l) (Some offs) scan d = Inr (map videoWithAuthor (take n' (drop m' ?ord)))"
    if "counts l n'" "counts offs m'" for l offs n' m'
    by (simp add: getVideos_rows default_arg_def page_counts [OF that] then_map_Inr)
  have u: "getVideos (Some (Num q')) (Some offs) scan d = Inr (map videoWithAuthor (drop m' ?ord))"
    if "q' < 0" "counts offs m'" for q' offs m'
    by (simp add: getVideos_rows default_arg_def page_no_limit [OF that] then_map_Inr)
  from m ds g u getVideos_rows
  show "\<exists>ordering.
         mset ordering = filter_mset (\<lambda>row. v_published (fst row) = Some True)
                           (mset (leftJoin (videos d) (users d) v_authorId))
         \<and> descending (map (v_createdAt \<circ> fst) ordering)
         \<and> (\<forall>l offs. getVideos l offs scan d =
               then_map videoWithAuthor (page (default_arg (Num 20) l) (default_arg (Num 0) offs) ordering))
         \<and> (\<forall>l offs n m. counts l n \<and> counts offs m \<longrightarrow>
               getVideos (Some l) (Some offs) scan d = Inr (map videoWithAuthor (take n (drop m ordering))))
         \<and> (\<forall>q offs m. q < 0 \<and> counts offs m \<longrightarrow>
               getVideos (Some (Num q)) (Some offs) scan d = Inr (map videoWithAuthor (drop m ordering)))"
    by blast
  show "counts lmt n \<and> counts ofs m \<longrightarrow>
        (\<exists>rows. getVideos (Some lmt) (Some ofs) scan d = Inr rows
           \<and> length rows \<le> n
           \<and> (\<forall>r\<in>set rows. v_published r = Some True)
           \<and> descending (map v_createdAt rows))"
  proof
    assume c: "counts lmt n \<and> counts ofs m"
    let ?rows = "map videoWithAuthor (take n (drop m ?ord))"
    from c have 1: "getVideos (Some lmt) (Some ofs) scan d = Inr ?rows"
      by (simp add: g)
    have 2: "length ?rows \<le> n"
      by simp
    have "set (take n (drop m ?ord)) \<subseteq> set ?ord"
      by (meson set_take_subset set_drop_subset subset_trans)
    with pub have 3: "\<forall>r\<in>set ?rows. v_published r = Some True"
      by (auto simp: videoWithAuthor_sel)
    have "map v_createdAt ?rows = take n (drop m (map (v_createdAt \<circ> fst) ?ord))"
      by (simp add: videoWithAuthor_sel comp_def take_map drop_map)
    with ds have 4: "descending (map v_createdAt ?rows)"
      by (simp add: descending_take descending_drop)
    from 1 2 3 4 show "\<exists>rows. getVideos (Some lmt) (Some ofs) scan d = Inr rows
           \<and> length rows \<le> n
           \<and> (\<forall>r\<in>set rows. v_published r = Some True)
           \<and> descending (map v_createdAt rows)"
      by blast
  qed
  show "q < 0 \<longrightarrow> getVideos limit (Some (Num q)) scan d = Inl invalid_count"
    by (simp add: getVideos_rows default_arg_def page_negative_offset then_map_Inl)
qed

lemma getVideos_consecutive_pages:
  assumes uk: "distinct (map u_id (users d))" and pk: "distinct (map v_id (videos d))"
    and stamps: "distinct (map v_createdAt (filter (\<lambda>p. v_published p = Some True) (videos d)))"
    and k: "counts k n"
  shows "\<exists>ordering rows1 rows2.
       mset ordering = filter_mset (\<lambda>row. v_published (fst row) = Some True)
                         (mset (leftJoin (videos d) (users d) v_authorId))
       \<and> descending (map (v_createdAt \<circ> fst) ordering)
       \<and> getVideos (Some k) (Some (Num 0)) scan d = Inr rows1
       \<and> getVideos (Some k) (Some k) scan' d = Inr rows2
       \<and> rows1 = map videoWithAuthor (take n ordering)
       \<and> rows2 = map videoWithAuthor (take n (drop n ordering))
       \<and> map Video.truncate (rows1 @ rows2) = take (2 * n) (map fst ordering)
       \<and> descending (map v_createdAt (rows1 @ rows2))
       \<and> distinct (map v_id (rows1 @ rows2))
       \<and> set rows1 \<inter> set rows2 = {}
       \<and> (length (filter (\<lambda>p. v_published p = Some True) (videos d)) \<le> 2 * n \<longrightarrow>
            set (map Video.truncate (rows1 @ rows2)) = {p \<in> set (videos d). v_published p = Some True})"
proof -
  let ?key = "desc (v_createdAt \<circ> fst)"
  let ?ord = "orderBy scan ?key (publishedVideoRows d)"
  let ?P1 = "map videoWithAuthor (take n ?ord)" and ?P2 = "map videoWithAuthor (take n (drop n ?ord))"
  have "map ?key (publishedVideoRows d)
          = map (map_option uminus) (map v_createdAt (map fst (publishedVideoRows d)))"
    by (simp add: desc_def)
  also have "\<dots> = map (map_option uminus)
                     (map v_createdAt (filter (\<lambda>p. v_published p = Some True) (videos d)))"
    by (simp only: publishedVideoRows_fst [OF uk])
  finally have "distinct (map ?key (publishedVideoRows d))"
    using stamps inj_desc_key by (simp add: distinct_map inj_on_def inj_def)
  then have same: "orderBy scan' ?key (publishedVideoRows d) = ?ord"
    by (rule orderBy_unique)
  have zero: "counts (Num 0) 0"
    by (simp add: counts_def)
  have m: "mset ?ord = filter_mset (\<lambda>row. v_published (fst row) = Some True)
                           (mset (leftJoin (videos d) (users d) v_authorId))"
    by (simp add: mset_orderBy publishedVideoRows_filter)
  have ds: "descending (map (v_createdAt \<circ> fst) ?ord)"
    by (rule descending_orderBy)
  have p1: "getVideos (Some k) (Some (Num 0)) scan d = Inr ?P1"
    by (simp add: getVideos_rows default_arg_def page_counts [OF k zero] then_map_Inr)
  have p2: "getVideos (Some k) (Some k) scan' d = Inr ?P2"
    by (simp add: getVideos_rows default_arg_def page_counts [OF k k] then_map_Inr same)
  have cat: "?P1 @ ?P2 = map videoWithAuthor (take (2 * n) ?ord)"
    by (simp only: page_concat flip: map_append)
  have trunc: "map Video.truncate (?P1 @ ?P2) = take (2 * n) (map fst ?ord)"
    unfolding cat by (simp add: videoWithAuthor_sel comp_def take_map)
  have "map v_createdAt (?P1 @ ?P2) = take (2 * n) (map (v_createdAt \<circ> fst) ?ord)"
    unfolding cat by (simp add: videoWithAuthor_sel comp_def take_map)
  with ds have desc: "descending (map v_createdAt (?P1 @ ?P2))"
    by (simp add: descending_take)
  have ids: "map v_id (?P1 @ ?P2) = take (2 * n) (map v_id (map fst ?ord))"
    unfolding cat by (simp add: videoWithAuthor_sel comp_def take_map)
  have perm: "mset (map fst ?ord) = mset (filter (\<lambda>p. v_published p = Some True) (videos d))"
    by (simp only: mset_map mset_orderBy flip: publishedVideoRows_fst [OF uk])
  then have "mset (map v_id (map fst ?ord))
          = mset (map v_id (filter (\<lambda>p. v_published p = Some True) (videos d)))"
    by (metis mset_map)
  moreover have "distinct (map v_id (filter (\<lambda>p. v_published p = Some True) (videos d)))"
    using pk by (rule distinct_map_filter)
  ultimately have "distinct (map v_id (map fst ?ord))"
    by (metis mset_eq_imp_distinct_iff)
  then have dd: "distinct (map v_id (?P1 @ ?P2))"
    unfolding ids by (rule distinct_take)
  then have "distinct (?P1 @ ?P2)"
    by (simp only: distinct_map)
  then have disj: "set ?P1 \<inter> set ?P2 = {}"
    by simp
  have cover: "length (filter (\<lambda>p. v_published p = Some True) (videos d)) \<le> 2 * n \<longrightarrow>
            set (map Video.truncate (?P1 @ ?P2)) = {p \<in> set (videos d). v_published p = Some True}"
  proof
    assume fit: "length (filter (\<lambda>p. v_published p = Some True) (videos d)) \<le> 2 * n"
    from perm have "length (map fst ?ord) = length (filter (\<lambda>p. v_published p = Some True) (videos d))"
      by (rule mset_eq_length)
    with fit have "take (2 * n) (map fst ?ord) = map fst ?ord"
      by simp
    moreover from perm have "set (map fst ?ord) = set (filter (\<lambda>p. v_published p = Some True) (videos d))"
      by (rule mset_eq_setD)
    ultimately show "set (map Video.truncate (?P1 @ ?P2)) = {p \<in> set (videos d). v_published p = Some True}"
      unfolding trunc by simp
  qed
  from m ds p1 p2 trunc desc dd disj cover show ?thesis
    by blast
qed

text \<open>
  C1, as the spec states it: for every limit and offset the result has at most \<open>limit\<close>
  entries and skips the first \<open>offset\<close> entries. Neither argument is checked before it
  reaches the query. A negative limit puts no limit clause into the query: with limit
  \<open>- 1\<close> both published posts of the small store come back. A negative offset, and a
  limit that is not a whole number, are refused by the store, and the call raises.
\<close>

theorem getPosts_getVideos_counts_counterexample:
  "getPosts (Some (Num (- 1))) None [] example_db
     = Inr [postWithAuthor (orphan, None), postWithAuthor (hello, Some alice)]
   \<and> getVideos (Some (Num (- 1))) None [] example_db
     = Inr [videoWithAuthor (talk, Some alice), videoWithAuthor (demo, Some alice)]
   \<and> getPosts (Some (Num 1)) (Some (Num (- 1))) [] example_db = Inl invalid_count
   \<and> getVideos (Some (Num 1)) (Some (Num (- 1))) [] example_db = Inl invalid_count
   \<and> getPosts (Some (Num (1 / 2))) None [] example_db = Inl invalid_count
   \<and> getVideos (Some (Num (1 / 2))) None [] example_db = Inl invalid_count"
  by code_simp

text \<open>
  C1, amended. Left out, limit and offset are 20 and 0. Each call returns a page of one
  descending ordering of all the published joined rows, the ordering of that call (rows
  of equal \<open>createdAt\<close> stand in it in the order in which the call's scan met them).
  When limit and offset are row counts (whole numbers from 0 and below \<open>2 ^ 63\<close>), the
  call returns the rows of the ordering after the first \<open>offset\<close> ones, at most \<open>limit\<close>
  of them, each with the author the join found: every entry is published, the entries
  are in descending order of \<open>createdAt\<close>, and there are at most \<open>limit\<close> of them.
  A negative limit bounds nothing: every row after the first \<open>offset\<close> ones is returned.
  A negative offset makes the call raise.
\<close>

theorem getPosts_getVideos_page:
  "(getPosts None offset scan d = getPosts (Some (Num 20)) offset scan d
   \<and> getPosts limit None scan d = getPosts limit (Some (Num 0)) scan d
   \<and> (\<exists>ordering.
         mset ordering = filter_mset (\<lambda>row. p_published (fst row) = Some True)
                           (mset (leftJoin (posts d) (users d) p_authorId))
         \<and> descending (map (p_createdAt \<circ> fst) ordering)
         \<and> (\<forall>l offs. getPosts l offs scan d =
               then_map postWithAuthor (page (default_arg (Num 20) l) (default_arg (Num 0) offs) ordering))
         \<and> (\<forall>l offs n m. counts l n \<and> counts offs m \<longrightarrow>
               getPosts (Some l) (Some offs) scan d = Inr (map postWithAuthor (take n (drop m ordering))))
         \<and> (\<forall>q offs m. q < 0 \<and> counts offs m \<longrightarrow>
               getPosts (Some (Num q)) (Some offs) scan d = Inr (map postWithAuthor (drop m ordering))))
   \<and> (counts lmt n \<and> counts ofs m \<longrightarrow>
        (\<exists>rows. getPosts (Some lmt) (Some ofs) scan d = Inr rows
           \<and> length rows \<le> n
           \<and> (\<forall>r\<in>set rows. p_published r = Some True)
           \<and> descending (map p_createdAt rows)))
   \<and> (q < 0 \<longrightarrow> getPosts limit (Some (Num q)) scan d = Inl invalid_count))
   \<and> (getVideos None offset scan d = getVideos (Some (Num 20)) offset scan d
   \<and> getVideos limit None scan d = getVideos limit (Some (Num 0)) scan d
   \<and> (\<exists>ordering.
         mset ordering = filter_mset (\<lambda>row. v_published (fst row) = Some True)
                           (mset (leftJoin (videos d) (users d) v_authorId))
         \<and> descending (map (v_createdAt \<circ> fst) ordering)
         \<and> (\<forall>l offs. getVideos l offs scan d =
               then_map videoWithAuthor (page (default_arg (Num 20) l) (default_arg (Num 0) offs) ordering))
         \<and> (\<forall>l offs n m. counts l n \<and> counts offs m \<longrightarrow>
               getVideos (Some l) (Some offs) scan d = Inr (map videoWithAuthor (take n (drop m ordering))))
         \<and> (\<forall>q offs m. q < 0 \<and> counts offs m \<longrightarrow>
               getVideos (Some (Num q)) (Some offs) scan d = Inr (map videoWithAuthor (drop m ordering))))
   \<and> (counts lmt n \<and> counts ofs m \<longrightarrow>
        (\<exists>rows. getVideos (Some lmt) (Some ofs) scan d = Inr rows
           \<and> length rows \<le> n
           \<and> (\<forall>r\<in>set rows. v_published r = Some True)
           \<and> descending (map v_createdAt rows)))
   \<and> (q < 0 \<longrightarrow> getVideos limit (Some (Num q)) scan d = Inl invalid_count))"
  by (rule conjI [OF getPosts_page getVideos_page])

theorem getPosts_getVideos_page_witness:
  "counts (Num 1) 1 \<and> (- 1 :: rat) < 0
   \<and> getPosts None None [] example_db
        = Inr [postWithAuthor (orphan, None), postWithAuthor (hello, Some alice)]
   \<and> getPosts (Some (Num 1)) (Some (Num 1)) [] example_db = Inr [postWithAuthor (hello, Some alice)]
   \<and> length [postWithAuthor (hello, Some alice)] \<le> 1
   \<and> p_published (postWithAuthor (hello, Some alice)) = Some True
   \<and> descending (map p_createdAt [postWithAuthor (hello, Some alice)])
   \<and> getPosts None (Some (Num (- 1))) [] example_db = Inl invalid_count
   \<and> getVideos None None [] example_db
        = Inr [videoWithAuthor (talk, Some alice), videoWithAuthor (demo, Some alice)]
   \<and> getVideos (Some (Num 1)) (Some (Num 1)) [] example_db = Inr [videoWithAuthor (demo, Some alice)]
   \<and> length [videoWithAuthor (demo, Some alice)] \<le> 1
   \<and> v_published (videoWithAuthor (demo, Some alice)) = Some True
   \<and> descending (map v_createdAt [videoWithAuthor (demo, Some alice)])
   \<and> getVideos None (Some (Num (- 1))) [] example_db = Inl invalid_count"
proof -
  have c: "counts (Num 1) 1"
    by (simp add: counts_def)
  have neg: "(- 1 :: rat) < 0"
    by simp
  have p: "getPosts None None [] example_db
             = Inr [postWithAuthor (orphan, None), postWithAuthor (hello, Some alice)]"
    and p1: "getPosts (Some (Num 1)) (Some (Num 1)) [] example_db = Inr [postWithAuthor (hello, Some alice)]"
    and v: "getVideos None None [] example_db
             = Inr [videoWithAuthor (talk, Some alice), videoWithAuthor (demo, Some alice)]"
    and v1: "getVideos (Some (Num 1)) (Some (Num 1)) [] example_db = Inr [videoWithAuthor (demo, Some alice)]"
    by code_simp+
  note t = getPosts_getVideos_page [where d = example_db and scan = "[]" and lmt = "Num 1"
      and ofs = "Num 1" and n = 1 and m = 1 and q = "- 1" and limit = None and offset = None]
  note tp = t [THEN conjunct1, THEN conjunct2, THEN conjunct2, THEN conjunct2]
  note tv = t [THEN conjunct2, THEN conjunct2, THEN conjunct2, THEN conjunct2]
  from tp [THEN conjunct1] c obtain rows where "getPosts (Some (Num 1)) (Some (Num 1)) [] example_db = Inr rows"
    "length rows \<le> 1" "\<forall>r\<in>set rows. p_published r = Some True" "descending (map p_createdAt rows)"
    by blast
  with p1 have pp: "length [postWithAuthor (hello, Some alice)] \<le> 1"
    "p_published (postWithAuthor (hello, Some alice)) = Some True"
    "descending (map p_createdAt [postWithAuthor (hello, Some alice)])"
    by simp_all
  from tv [THEN conjunct1] c obtain rows where "getVideos (Some (Num 1)) (Some (Num 1)) [] example_db = Inr rows"
    "length rows \<le> 1" "\<forall>r\<in>set rows. v_published r = Some True" "descending (map v_createdAt rows)"
    by blast
  with v1 have vv: "length [videoWithAuthor (demo, Some alice)] \<le> 1"
    "v_published (videoWithAuthor (demo, Some alice)) = Some True"
    "descending (map v_createdAt [videoWithAuthor (demo, Some alice)])"
    by simp_all
  from tp [THEN conjunct2] tv [THEN conjunct2] neg
  have r: "getPosts None (Some (Num (- 1))) [] example_db = Inl invalid_count"
    "getVideos None (Some (Num (- 1))) [] example_db = Inl invalid_count"
    by blast+
  from c neg p p1 pp r v v1 vv show ?thesis
    by (intro conjI)
qed

text \<open>
  C7, as the spec states it: two consecutive pages never share an entity and omit none.
  The query orders by \<open>createdAt\<close> alone, so the order of rows with equal \<open>createdAt\<close> is
  that of the call's scan and may differ between the two calls. The store \<open>tied_db\<close>
  holds two published posts (and two published videos) of one \<open>createdAt\<close>, with unique
  ids: when the first call scans the second row first and the second call scans in table
  order, both pages of size 1 hold \<open>t2\<close> (\<open>w2\<close>), and \<open>t1\<close> (\<open>w1\<close>) is on neither.
\<close>

theorem consecutive_pages_tie_counterexample:
  "map p_id (posts tied_db) = [''t1'', ''t2'']
   \<and> map p_published (posts tied_db) = [Some True, Some True]
   \<and> map p_createdAt (posts tied_db) = [Some 500, Some 500]
   \<and> map_sum id (map p_id) (getPosts (Some (Num 1)) (Some (Num 0)) [1, 0] tied_db) = Inr [''t2'']
   \<and> map_sum id (map p_id) (getPosts (Some (Num 1)) (Some (Num 1)) [0, 1] tied_db) = Inr [''t2'']
   \<and> map v_id (videos tied_db) = [''w1'', ''w2'']
   \<and> map v_published (videos tied_db) = [Some True, Some True]
   \<and> map v_createdAt (videos tied_db) = [Some 500, Some 500]
   \<and> map_sum id (map v_id) (getVideos (Some (Num 1)) (Some (Num 0)) [1, 0] tied_db) = Inr [''w2'']
   \<and> map_sum id (map v_id) (getVideos (Some (Num 1)) (Some (Num 1)) [0, 1] tied_db) = Inr [''w2'']"
  by code_simp

text \<open>
  C7, amended. When no two published entities have the same \<open>createdAt\<close>, the ids of
  the entities and of the users are unique, and the page size \<open>k\<close> is a row count, the
  two calls for consecutive pages, whatever their scans, return the first and the second
  \<open>k\<close> entries of one descending ordering of all the published joined rows: together
  they are its first \<open>2 * k\<close> entries (no gap), in descending order of \<open>createdAt\<close>; no
  entity is on both pages; and when the published entities number at most \<open>2 * k\<close>, the
  two pages together hold exactly the published entities.
\<close>

theorem getPosts_getVideos_consecutive_pages:
  "(distinct (map u_id (users d)) \<and> distinct (map p_id (posts d))
     \<and> distinct (map p_createdAt (filter (\<lambda>p. p_published p = Some True) (posts d)))
     \<and> counts k n \<longrightarrow>
     (\<exists>ordering rows1 rows2.
       mset ordering = filter_mset (\<lambda>row. p_published (fst row) = Some True)
                         (mset (leftJoin (posts d) (users d) p_authorId))
       \<and> descending (map (p_createdAt \<circ> fst) ordering)
       \<and> getPosts (Some k) (Some (Num 0)) scan d = Inr rows1
       \<and> getPosts (Some k) (Some k) scan' d = Inr rows2
       \<and> rows1 = map postWithAuthor (take n ordering)
       \<and> rows2 = map postWithAuthor (take n (drop n ordering))
       \<and> map Post.truncate (rows1 @ rows2) = take (2 * n) (map fst ordering)
       \<and> descending (map p_createdAt (rows1 @ rows2))
       \<and> distinct (map p_id (rows1 @ rows2))
       \<and> set rows1 \<inter> set rows2 = {}
       \<and> (length (filter (\<lambda>p. p_published p = Some True) (posts d)) \<le> 2 * n \<longrightarrow>
            set (map Post.truncate (rows1 @ rows2)) = {p \<in> set (posts d). p_published p = Some True})))
   \<and> (distinct (map u_id (users d)) \<and> distinct (map v_id (videos d))
     \<and> distinct (map v_createdAt (filter (\<lambda>v. v_published v = Some True) (videos d)))
     \<and> counts k n \<longrightarrow>
     (\<exists>ordering rows1 rows2.
       mset ordering = filter_mset (\<lambda>row. v_published (fst row) = Some True)
                         (mset (leftJoin (videos d) (users d) v_authorId))
       \<and> descending (map (v_createdAt \<circ> fst) ordering)
       \<and> getVideos (Some k) (Some (Num 0)) scan d = Inr rows1
       \<and> getVideos (Some k) (Some k) scan' d = Inr rows2
       \<and> rows1 = map videoWithAuthor (take n ordering)
       \<and> rows2 = map videoWithAuthor (take n (drop n ordering))
       \<and> map Video.truncate (rows1 @ rows2) = take (2 * n) (map fst ordering)
       \<and> descending (map v_createdAt (rows1 @ rows2))
       \<and> distinct (map v_id (rows1 @ rows2))
       \<and> set rows1 \<inter> set rows2 = {}
       \<and> (length (filter (\<lambda>v. v_published v = Some True) (videos d)) \<le> 2 * n \<longrightarrow>
            set (map Video.truncate (rows1 @ rows2)) = {v \<in> set (videos d). v_published v = Some True})))"
  using getPosts_consecutive_pages [of d k n scan scan'] getVideos_consecutive_pages [of d k n scan scan']
  by blast

theorem getPosts_getVideos_consecutive_pages_witness:
  "distinct (map u_id (users example_db))
   \<and> distinct (map p_id (posts example_db)) \<and> distinct (map v_id (videos example_db))
   \<and> distinct (map p_createdAt (filter (\<lambda>p. p_published p = Some True) (posts example_db)))
   \<and> distinct (map v_createdAt (filter (\<lambda>v. v_published v = Some True) (videos example_db)))
   \<and> counts (Num 1) 1
   \<and> length (filter (\<lambda>p. p_published p = Some True) (posts example_db)) \<le> 2 * 1
   \<and> length (filter (\<lambda>v. v_published v = Some True) (videos example_db)) \<le> 2 * 1
   \<and> getPosts (Some (Num 1)) (Some (Num 0)) [1, 0] example_db = Inr [postWithAuthor (orphan, None)]
   \<and> getPosts (Some (Num 1)) (Some (Num 1)) [0, 1] example_db = Inr [postWithAuthor (hello, Some alice)]
   \<and> set [postWithAuthor (orphan, None)] \<inter> set [postWithAuthor (hello, Some alice)] = {}
   \<and> set (map Post.truncate ([postWithAuthor (orphan, None)] @ [postWithAuthor (hello, Some alice)]))
        = {p \<in> set (posts example_db). p_published p = Some True}
   \<and> getVideos (Some (Num 1)) (Some (Num 0)) [1, 0] example_db = Inr [videoWithAuthor (talk, Some alice)]
   \<and> getVideos (Some (Num 1)) (Some (Num 1)) [0, 1] example_db = Inr [videoWithAuthor (demo, Some alice)]
   \<and> set [videoWithAuthor (talk, Some alice)] \<inter> set [videoWithAuthor (demo, Some alice)] = {}
   \<and> set (map Video.truncate ([videoWithAuthor (talk, Some alice)] @ [videoWithAuthor (demo, Some alice)]))
        = {v \<in> set (videos example_db). v_published v = Some True}"
proof -
  have uk: "distinct (map u_id (users example_db))"
    and pk: "distinct (map p_id (posts example_db))" "distinct (map v_id (videos example_db))"
    and st: "distinct (map p_createdAt (filter (\<lambda>p. p_published p = Some True) (posts example_db)))"
      "distinct (map v_createdAt (filter (\<lambda>v. v_published v = Some True) (videos example_db)))"
    and fit: "length (filter (\<lambda>p. p_published p = Some True) (posts example_db)) \<le> 2 * 1"
      "length (filter (\<lambda>v. v_published v = Some True) (videos example_db)) \<le> 2 * 1"
    by (simp_all add: ex_defs)
  have c: "counts (Num 1) 1"
    by (simp add: counts_def)
  have pages: "getPosts (Some (Num 1)) (Some (Num 0)) [1, 0] example_db = Inr [postWithAuthor (orphan, None)]"
    "getPosts (Some (Num 1)) (Some (Num 1)) [0, 1] example_db = Inr [postWithAuthor (hello, Some alice)]"
    "getVideos (Some (Num 1)) (Some (Num 0)) [1, 0] example_db = Inr [videoWithAuthor (talk, Some alice)]"
    "getVideos (Some (Num 1)) (Some (Num 1)) [0, 1] example_db = Inr [videoWithAuthor (demo, Some alice)]"
    by code_simp+
  note t = getPosts_getVideos_consecutive_pages [where d = example_db and k = "Num 1" and n = 1
      and scan = "[1, 0]" and scan' = "[0, 1]"]
  from t uk pk(1) st(1) c fit(1) obtain rows1 rows2 where
    "getPosts (Some (Num 1)) (Some (Num 0)) [1, 0] example_db = Inr rows1"
    "getPosts (Some (Num 1)) (Some (Num 1)) [0, 1] example_db = Inr rows2"
    "set rows1 \<inter> set rows2 = {}"
    "set (map Post.truncate (rows1 @ rows2)) = {p \<in> set (posts example_db). p_published p = Some True}"
    by blast
  with pages have pp: "set [postWithAuthor (orphan, None)] \<inter> set [postWithAuthor (hello, Some alice)] = {}"
    "set (map Post.truncate ([postWithAuthor (orphan, None)] @ [postWithAuthor (hello, Some alice)]))
        = {p \<in> set (posts example_db). p_published p = Some True}"
    by simp_all
  from t uk pk(2) st(2) c fit(2) obtain rows1 rows2 where
    "getVideos (Some (Num 1)) (Some (Num 0)) [1, 0] example_db = Inr rows1"
    "getVideos (Some (Num 1)) (Some (Num 1)) [0, 1] example_db = Inr rows2"
    "set rows1 \<inter> set rows2 = {}"
    "set (map Video.truncate (rows1 @ rows2)) = {v \<in> set (videos example_db). v_published v = Some True}"
    by blast
  with pages have vv: "set [videoWithAuthor (talk, Some alice)] \<inter> set [videoWithAuthor (demo, Some alice)] = {}"
    "set (map Video.truncate ([videoWithAuthor (talk, Some alice)] @ [videoWithAuthor (demo, Some alice)]))
        = {v \<in> set (videos example_db). v_published v = Some True}"
    by simp_all
  from uk pk st c fit pages pp vv show ?thesis
    by (intro conjI)
qed

section \<open>Search\<close>





text \<open>
  C3. The claim is right and the code misses it: \<open>searchPosts\<close> and \<open>searchVideos\<close>
  put the query between two \<open>%\<close> signs and hand it to \<open>ilike\<close> as a pattern, without
  escaping the pattern characters of the query itself. For the query \<open>_\<close> (code point
  95) the pattern is \<open>%_%\<close>, which any non-empty text matches: on the small store both
  published posts and both published videos are returned, though no title, content,
  excerpt or description of theirs holds a \<open>_\<close>.
\<close>

theorem search_wildcard_not_escaped:
  "95 \<notin> set (p_title orphan) \<and> 95 \<notin> set (p_content orphan) \<and> p_excerpt orphan = None
   \<and> 95 \<notin> set (p_title hello) \<and> 95 \<notin> set (p_content hello)
   \<and> 95 \<notin> set (case p_excerpt hello of None \<Rightarrow> [] | Some e \<Rightarrow> e)
   \<and> searchPosts latin_fold [] [95] example_db
        = [postWithAuthor (orphan, None), postWithAuthor (hello, Some alice)]
   \<and> 95 \<notin> set (v_title talk) \<and> v_description talk = None
   \<and> 95 \<notin> set (v_title demo) \<and> 95 \<notin> set (case v_description demo of None \<Rightarrow> [] | Some e \<Rightarrow> e)
   \<and> searchVideos latin_fold [] [95] example_db
        = [videoWithAuthor (talk, Some alice), videoWithAuthor (demo, Some alice)]"
  by code_simp

section \<open>Rows without an author\<close>

















section \<open>Deletes\<close>

lemma nullish_count_pos: "(nullish (Some (length (filter P xs))) 0 > 0) = (\<exists>x\<in>set xs. P x)"
  by (auto simp: nullish_def filter_empty_conv)

lemma deletePost_effect:
  "fst (deletePost i d) = (i \<in> set (map p_id (posts d)))
   \<and> posts (snd (deletePost i d)) = filter (\<lambda>r. p_id r \<noteq> i) (posts d)
   \<and> i \<notin> set (map p_id (posts (snd (deletePost i d))))
   \<and> fst (deletePost i (snd (deletePost i d))) = False
   \<and> getPost i (snd (deletePost i d)) = None"
proof -
  have "fst (deletePost i d) = (i \<in> set (map p_id (posts d)))"
    by (auto simp: deletePost_def nullish_count_pos)
  moreover have rows: "posts (snd (deletePost i d)) = filter (\<lambda>r. p_id r \<noteq> i) (posts d)"
    by (simp add: deletePost_def)
  moreover have gone: "i \<notin> set (map p_id (posts (snd (deletePost i d))))"
    unfolding rows by auto
  moreover have "fst (deletePost i (snd (deletePost i d))) = False"
    unfolding deletePost_def Let_def fst_conv snd_conv nullish_count_pos by simp
  moreover have "getPost i (snd (deletePost i d)) = None"
    unfolding getPost_eq using gone by (auto simp: find_None_iff)
  ultimately show ?thesis by blast
qed

lemma deleteVideo_effect:
  "fst (deleteVideo i d) = (i \<in> set (map v_id (videos d)))
   \<and> videos (snd (deleteVideo i d)) = filter (\<lambda>r. v_id r \<noteq> i) (videos d)
   \<and> i \<notin> set (map v_id (videos (snd (deleteVideo i d))))
   \<and> fst (deleteVideo i (snd (deleteVideo i d))) = False
   \<and> getVideo i (snd (deleteVideo i d)) = None"
proof -
  have "fst (deleteVideo i d) = (i \<in> set (map v_id (videos d)))"
    by (auto simp: deleteVideo_def nullish_count_pos)
  moreover have rows: "videos (snd (deleteVideo i d)) = filter (\<lambda>r. v_id r \<noteq> i) (videos d)"
    by (simp add: deleteVideo_def)
  moreover have gone: "i \<notin> set (map v_id (videos (snd (deleteVideo i d))))"
    unfolding rows by auto
  moreover have "fst (deleteVideo i (snd (deleteVideo i d))) = False"
    unfolding deleteVideo_def Let_def fst_conv snd_conv nullish_count_pos by simp
  moreover have "getVideo i (snd (deleteVideo i d)) = None"
    unfolding getVideo_eq using gone by (auto simp: find_None_iff)
  ultimately show ?thesis by blast
qed

lemma deleteComment_effect:
  "fst (deleteComment i d) = (i \<in> set (map c_id (comments d)))
   \<and> comments (snd (deleteComment i d)) = filter (\<lambda>c. c_id c \<noteq> i) (comments d)
   \<and> i \<notin> set (map c_id (comments (snd (deleteComment i d))))
   \<and> fst (deleteComment i (snd (deleteComment i d))) = False"
proof -
  have "fst (deleteComment i d) = (i \<in> set (map c_id (comments d)))"
    by (auto simp: deleteComment_def nullish_count_pos)
  moreover have rows: "comments (snd (deleteComment i d)) = filter (\<lambda>c. c_id c \<noteq> i) (comments d)"
    by (simp add: deleteComment_def)
  moreover have "i \<notin> set (map c_id (comments (snd (deleteComment i d))))"
    unfolding rows by auto
  moreover have "fst (deleteComment i (snd (deleteComment i d))) = False"
    unfolding deleteComment_def Let_def fst_conv snd_conv nullish_count_pos by simp
  ultimately show ?thesis by blast
qed

text \<open>
  C5. \<open>deletePost\<close>, \<open>deleteVideo\<close> and \<open>deleteComment\<close> return true exactly when
  the table held a row of the id; afterwards the table holds the other rows and none of
  that id, a second delete of the id returns false, and the point lookup of the id is
  absent. Every outcome is a boolean: a missing id is not a failure.
\<close>

theorem delete_reports_removal:
  "(fst (deletePost i d) = (i \<in> set (map p_id (posts d)))
   \<and> posts (snd (deletePost i d)) = filter (\<lambda>r. p_id r \<noteq> i) (posts d)
   \<and> i \<notin> set (map p_id (posts (snd (deletePost i d))))
   \<and> fst (deletePost i (snd (deletePost i d))) = False
   \<and> getPost i (snd (deletePost i d)) = None)
   \<and> (fst (deleteVideo i d) = (i \<in> set (map v_id (videos d)))
   \<and> videos (snd (deleteVideo i d)) = filter (\<lambda>r. v_id r \<noteq> i) (videos d)
   \<and> i \<notin> set (map v_id (videos (snd (deleteVideo i d))))
   \<and> fst (deleteVideo i (snd (deleteVideo i d))) = False
   \<and> getVideo i (snd (deleteVideo i d)) = None)
   \<and> (fst (deleteComment i d) = (i \<in> set (map c_id (comments d)))
   \<and> comments (snd (deleteComment i d)) = filter (\<lambda>c. c_id c \<noteq> i) (comments d)
   \<and> i \<notin> set (map c_id (comments (snd (deleteComment i d))))
   \<and> fst (deleteComment i (snd (deleteComment i d))) = False)"
  using deletePost_effect deleteVideo_effect deleteComment_effect by (intro conjI) blast+

theorem delete_reports_removal_witness:
  "fst (deletePost ''p1'' example_db) = True \<and> fst (deletePost ''p9'' example_db) = False
   \<and> posts (snd (deletePost ''p1'' example_db)) = [hello, orphan]
   \<and> getPost ''p1'' (snd (deletePost ''p1'' example_db)) = None
   \<and> fst (deleteVideo ''v1'' example_db) = True \<and> fst (deleteVideo ''v9'' example_db) = False
   \<and> videos (snd (deleteVideo ''v1'' example_db)) = [demo, talk]
   \<and> fst (deleteComment ''c1'' example_db) = True \<and> fst (deleteComment ''c9'' example_db) = False
   \<and> comments (snd (deleteComment ''c1'' example_db)) = []"
  using delete_reports_removal [of "''p1''" example_db] delete_reports_removal [of "''p9''" example_db]
    delete_reports_removal [of "''v1''" example_db] delete_reports_removal [of "''v9''" example_db]
    delete_reports_removal [of "''c1''" example_db] delete_reports_removal [of "''c9''" example_db]
  by (simp add: ex_defs)

end
